theory Spec2Isabelle
  imports Complex_Main "HOL-Library.Log_Nat"
begin

chapter \<open>The program\<close>

section \<open>JavaScript values used by the playback core\<close>

text \<open>
  A JavaScript string is a sequence of UTF-16 code units: \<open>line[i]\<close>, \<open>line.length\<close>,
  \<open>===\<close> and the regular expressions of the source (none has the \<open>u\<close> flag) all work
  on code units. A string is therefore a list of code units, each a natural number;
  \<open>js\<close> turns an ASCII literal into such a list.
\<close>

type_synonym jsstring = "nat list"

definition js :: "string \<Rightarrow> jsstring" where
  "js s = map of_char s"

text \<open>
  A JavaScript number, as far as the parser and the pitch mapper produce one: a finite
  value, \<open>Infinity\<close> (a positive number divided by zero) or \<open>NaN\<close> (zero divided by
  zero, or a non-number converted by \<open>Math.min\<close>). Finite values are kept as exact
  rationals: the pitches are small integers, and a duration is a one-digit integer or
  the quotient of two of them, whose double has the sign and the zero-ness of the
  exact quotient.
\<close>

datatype jsnum = Num rat | Infinity | NaN

text \<open>\<open>n / d\<close> for two non-negative integers, as IEEE division does it.\<close>

definition jsquot :: "nat \<Rightarrow> nat \<Rightarrow> jsnum" where
  "jsquot n d =
     (if d = 0 then (if n = 0 then NaN else Infinity)
      else Num (of_nat n / of_nat d))"

text \<open>The objects pushed onto \<open>notes\<close>: \<open>{ pitch, duration, rest }\<close>.\<close>

record note_event =
  pitch :: jsnum
  duration :: jsnum
  rest :: bool

section \<open>Pitch mapper: \<open>noteToMIDI\<close> (static/js/playback.js)\<close>

definition apostrophe :: nat where "apostrophe = of_char (CHR 0x27)"
definition comma :: nat where "comma = of_char CHR '',''"

text \<open>The own properties of the object literal \<open>noteMap\<close>.\<close>

definition noteMap :: "jsstring \<Rightarrow> rat option" where
  "noteMap = map_of
     [(js ''D'', 62), (js ''E'', 64), (js ''F'', 65), (js ''G'', 67), (js ''A'', 69),
      (js ''B'', 71), (js ''c'', 72), (js ''d'', 74), (js ''e'', 76), (js ''f'', 77),
      (js ''g'', 79), (js ''a'', 81), (js ''b'', 83)]"

text \<open>
  \<open>noteMap[baseNote]\<close> also finds the properties that an object literal inherits from
  \<open>Object.prototype\<close>. Each of them is a function or an object, hence truthy, so that
  \<open>|| 64\<close> keeps it; \<open>Math.min(127, midi)\<close> then converts it (or the string that
  \<open>+=\<close> made of it) to \<open>NaN\<close>, and \<open>Math.max(0, NaN)\<close> is \<open>NaN\<close>.
\<close>

definition inheritedKeys :: "jsstring list" where
  "inheritedKeys = map js
     [''constructor'', ''hasOwnProperty'', ''isPrototypeOf'', ''propertyIsEnumerable'',
      ''toLocaleString'', ''toString'', ''valueOf'', ''__proto__'',
      ''__defineGetter__'', ''__defineSetter__'', ''__lookupGetter__'',
      ''__lookupSetter__'']"

definition noteToMIDI :: "jsstring \<Rightarrow> jsnum" where
  "noteToMIDI note =
     (let baseNote = filter (\<lambda>c. c \<noteq> apostrophe \<and> c \<noteq> comma) note
      in if baseNote \<in> set inheritedKeys then NaN
         else
           let midi = (case noteMap baseNote of Some v \<Rightarrow> v | None \<Rightarrow> 64);
               midi = (if apostrophe \<in> set note
                       then midi + of_nat (count_list note apostrophe) * 12 else midi);
               midi = (if comma \<in> set note
                       then midi - of_nat (count_list note comma) * 12 else midi)
           in Num (max 0 (min 127 midi)))"

section \<open>Tokenizer: \<open>parseABCNotation\<close> (static/js/playback.js)\<close>

subsection \<open>Character tests\<close>

definition newline :: nat where "newline = of_char CHR ''\<newline>''"
definition dquote :: nat where "dquote = of_char (CHR 0x22)"
definition space :: nat where "space = of_char CHR '' ''"
definition slash :: nat where "slash = of_char CHR ''/''"

text \<open>\<open>/[|:\[\]]/\<close>, \<open>/[{}~!+.]/\<close>, \<open>/[A-Ga-g]/\<close>, \<open>/[\^_=]/\<close>, \<open>/[',]/\<close> and \<open>/\d/\<close>.\<close>

definition isBar :: "nat \<Rightarrow> bool" where
  "isBar c \<longleftrightarrow> c \<in> set (js ''|:[]'')"

definition isDecoration :: "nat \<Rightarrow> bool" where
  "isDecoration c \<longleftrightarrow> c \<in> set (js ''{}~!+.'')"

definition isNoteLetter :: "nat \<Rightarrow> bool" where
  "isNoteLetter c \<longleftrightarrow>
     (of_char CHR ''A'' \<le> c \<and> c \<le> of_char CHR ''G'') \<or>
     (of_char CHR ''a'' \<le> c \<and> c \<le> of_char CHR ''g'')"

definition isAccidental :: "nat \<Rightarrow> bool" where
  "isAccidental c \<longleftrightarrow> c \<in> set (js ''^_='')"

definition isOctaveMark :: "nat \<Rightarrow> bool" where
  "isOctaveMark c \<longleftrightarrow> c = apostrophe \<or> c = comma"

definition isDigit :: "nat \<Rightarrow> bool" where
  "isDigit c \<longleftrightarrow> of_char CHR ''0'' \<le> c \<and> c \<le> of_char CHR ''9''"

text \<open>\<open>parseInt\<close> of a one-character string that \<open>/\d/\<close> accepted.\<close>

definition parseInt :: "nat \<Rightarrow> nat" where
  "parseInt c = c - of_char CHR ''0''"

subsection \<open>Lines\<close>

text \<open>\<open>notation.split('\n')\<close>: the empty string gives one empty line.\<close>

fun split_lines :: "jsstring \<Rightarrow> jsstring list" where
  "split_lines [] = [[]]"
| "split_lines (c # cs) =
     (if c = newline then [] # split_lines cs
      else (case split_lines cs of
              l # ls \<Rightarrow> (c # l) # ls
            | [] \<Rightarrow> [[c]]))"

text \<open>\<open>line.match(/^[A-Z]:/)\<close>: without the \<open>m\<close> flag, \<open>^\<close> is the start of the line.\<close>

fun isHeaderLine :: "jsstring \<Rightarrow> bool" where
  "isHeaderLine (a # b # _) \<longleftrightarrow>
     of_char CHR ''A'' \<le> a \<and> a \<le> of_char CHR ''Z'' \<and> b = of_char CHR '':''"
| "isHeaderLine _ \<longleftrightarrow> False"

text \<open>
  \<open>String.prototype.trim\<close> removes the code units of WhiteSpace and LineTerminator
  from both ends.
\<close>

definition isWhiteSpace :: "nat \<Rightarrow> bool" where
  "isWhiteSpace c \<longleftrightarrow>
     c \<in> {0x9, 0xA, 0xB, 0xC, 0xD, 0x20, 0xA0, 0x1680, 0x2028, 0x2029, 0x202F,
          0x205F, 0x3000, 0xFEFF} \<or> (0x2000 \<le> c \<and> c \<le> 0x200A)"

definition trim :: "jsstring \<Rightarrow> jsstring" where
  "trim s = rev (dropWhile isWhiteSpace (rev (dropWhile isWhiteSpace s)))"

subsection \<open>Durations\<close>

text \<open>
  The duration statements stand twice in the loop, word for word, after a note
  (lines 113 to 126) and after a rest (lines 139 to 153). \<open>readDigit\<close> is the first
  \<open>if\<close> (one digit, else the initial 1) and \<open>readSlash\<close> the second; both return the
  text from the new index \<open>i\<close> on.
\<close>

definition readDigit :: "jsstring \<Rightarrow> nat \<times> jsstring" where
  "readDigit s =
     (case s of
        c # t \<Rightarrow> if isDigit c then (parseInt c, t) else (1, s)
      | [] \<Rightarrow> (1, s))"

definition readSlash :: "nat \<Rightarrow> jsstring \<Rightarrow> jsnum \<times> jsstring" where
  "readSlash n s =
     (case s of
        c # t \<Rightarrow>
          if c = slash
          then (case t of
                  d # u \<Rightarrow> if isDigit d then (jsquot n (parseInt d), u)
                           else (jsquot n 2, t)
                | [] \<Rightarrow> (jsquot n 2, t))
          else (Num (of_nat n), s)
      | [] \<Rightarrow> (Num (of_nat n), s))"

definition parseDuration :: "jsstring \<Rightarrow> jsnum \<times> jsstring" where
  "parseDuration s = (case readDigit s of (n, s1) \<Rightarrow> readSlash n s1)"

lemma length_readDigit: "length (snd (readDigit s)) \<le> length s"
  by (simp add: readDigit_def split: list.split)

lemma length_readSlash: "length (snd (readSlash n s)) \<le> length s"
  by (simp add: readSlash_def split: list.split)

lemma length_parseDuration: "length (snd (parseDuration s)) \<le> length s"
proof -
  obtain n s1 where r: "readDigit s = (n, s1)"
    by (cases "readDigit s")
  have "length s1 \<le> length s"
    using length_readDigit [of s] r by simp
  moreover have "length (snd (readSlash n s1)) \<le> length s1"
    by (rule length_readSlash)
  ultimately show ?thesis
    by (simp add: parseDuration_def r)
qed

subsection \<open>The scan of one line\<close>

text \<open>
  The \<open>while (i < line.length)\<close> loop. The argument is the text from index \<open>i\<close> on,
  the result the events pushed from there to the end of the line, in the order of
  the pushes. After an unterminated chord annotation \<open>i\<close> is one past the end and the
  loop ends, as \<open>drop 1\<close> of the empty rest does.
\<close>

function scanLine :: "jsstring \<Rightarrow> note_event list" where
  "scanLine [] = []"
| "scanLine (c # cs) =
     (if c = dquote then scanLine (drop 1 (dropWhile (\<lambda>x. x \<noteq> dquote) cs))
      else if isBar c then scanLine cs
      else if c = space then scanLine cs
      else if isDecoration c then scanLine cs
      else if isNoteLetter c then
        (let s1 = dropWhile isAccidental cs;
             note = c # takeWhile isOctaveMark s1;
             s2 = dropWhile isOctaveMark s1;
             d = parseDuration s2
         in \<lparr>pitch = noteToMIDI note, duration = fst d, rest = False\<rparr>
              # scanLine (snd d))
      else if c = of_char CHR ''z'' then
        (let d = parseDuration cs
         in \<lparr>pitch = Num 0, duration = fst d, rest = True\<rparr> # scanLine (snd d))
      else scanLine cs)"
  by pat_completeness auto
termination
proof (relation "measure length")
  show "wf (measure length)"
    by simp
next
  fix c :: nat and cs :: jsstring
  have "length (dropWhile (\<lambda>x. x \<noteq> dquote) cs) \<le> length cs"
    by (rule length_dropWhile_le)
  then show "(drop 1 (dropWhile (\<lambda>x. x \<noteq> dquote) cs), c # cs) \<in> measure length"
    by simp
next
  fix c :: nat and cs s1 s2 :: jsstring and d :: "jsnum \<times> jsstring"
  assume "s1 = dropWhile isAccidental cs" "s2 = dropWhile isOctaveMark s1"
    "d = parseDuration s2"
  moreover have "length (dropWhile isAccidental cs) \<le> length cs"
    by (rule length_dropWhile_le)
  moreover have "length (dropWhile isOctaveMark (dropWhile isAccidental cs))
      \<le> length (dropWhile isAccidental cs)"
    by (rule length_dropWhile_le)
  moreover have "length (snd (parseDuration (dropWhile isOctaveMark (dropWhile isAccidental cs))))
      \<le> length (dropWhile isOctaveMark (dropWhile isAccidental cs))"
    by (rule length_parseDuration)
  ultimately show "(snd d, c # cs) \<in> measure length"
    by simp
next
  fix c :: nat and cs :: jsstring and d :: "jsnum \<times> jsstring"
  assume "d = parseDuration cs"
  then show "(snd d, c # cs) \<in> measure length"
    using length_parseDuration [of cs] by simp
qed simp_all

subsection \<open>The whole notation\<close>

definition getDefaultNotes :: "note_event list" where
  "getDefaultNotes =
     [\<lparr>pitch = Num 64, duration = Num 1, rest = False\<rparr>,
      \<lparr>pitch = Num 67, duration = Num 1, rest = False\<rparr>,
      \<lparr>pitch = Num 69, duration = Num 1, rest = False\<rparr>,
      \<lparr>pitch = Num 71, duration = Num 1, rest = False\<rparr>,
      \<lparr>pitch = Num 76, duration = Num 1, rest = False\<rparr>,
      \<lparr>pitch = Num 79, duration = Num 1, rest = False\<rparr>,
      \<lparr>pitch = Num 81, duration = Num 1, rest = False\<rparr>,
      \<lparr>pitch = Num 83, duration = Num 1, rest = False\<rparr>]"

text \<open>The \<open>for (const line of lines)\<close> loop, with its two \<open>continue\<close>s.\<close>

fun parseLines :: "jsstring list \<Rightarrow> note_event list" where
  "parseLines [] = []"
| "parseLines (line # lines) =
     (if isHeaderLine line then parseLines lines
      else if trim line = [] then parseLines lines
      else scanLine line @ parseLines lines)"

text \<open>
  Nothing inside the \<open>try\<close> block raises when \<open>notation\<close> is a string (every read
  \<open>line[i]\<close> is guarded by \<open>i < line.length\<close>, and \<open>noteToMIDI\<close> only calls string
  and \<open>Math\<close> functions), so the \<open>catch\<close> branch is never taken and has no case here.
\<close>

definition parseABCNotation :: "jsstring \<Rightarrow> note_event list" where
  "parseABCNotation notation =
     (let notes = parseLines (split_lines notation)
      in if length notes = 0 then getDefaultNotes else notes)"

section \<open>The second copy of the core (static/js/generation.js)\<close>

text \<open>
  generation.js defines \<open>parseABCNotation\<close>, \<open>noteToMIDI\<close> and \<open>getDefaultNotes\<close> once
  more (lines 540 to 701). The definitions below are written from that text; the
  regular expressions are the same ones, so the character tests are shared. The
  duration statements are modelled in one piece here.
\<close>

definition gen_noteMap :: "jsstring \<Rightarrow> rat option" where
  "gen_noteMap = map_of
     [(js ''D'', 62), (js ''E'', 64), (js ''F'', 65), (js ''G'', 67), (js ''A'', 69),
      (js ''B'', 71),
      (js ''c'', 72), (js ''d'', 74), (js ''e'', 76), (js ''f'', 77), (js ''g'', 79),
      (js ''a'', 81), (js ''b'', 83)]"

definition gen_noteToMIDI :: "jsstring \<Rightarrow> jsnum" where
  "gen_noteToMIDI note =
     (let baseNote = filter (\<lambda>c. c \<noteq> apostrophe \<and> c \<noteq> comma) note
      in if baseNote \<in> set inheritedKeys then NaN
         else
           let midi = (case gen_noteMap baseNote of Some v \<Rightarrow> v | None \<Rightarrow> 64);
               midi = (if apostrophe \<in> set note
                       then midi + of_nat (count_list note apostrophe) * 12 else midi);
               midi = (if comma \<in> set note
                       then midi - of_nat (count_list note comma) * 12 else midi)
           in Num (max 0 (min 127 midi)))"

definition gen_getDefaultNotes :: "note_event list" where
  "gen_getDefaultNotes =
     [\<lparr>pitch = Num 64, duration = Num 1, rest = False\<rparr>,
      \<lparr>pitch = Num 67, duration = Num 1, rest = False\<rparr>,
      \<lparr>pitch = Num 69, duration = Num 1, rest = False\<rparr>,
      \<lparr>pitch = Num 71, duration = Num 1, rest = False\<rparr>,
      \<lparr>pitch = Num 76, duration = Num 1, rest = False\<rparr>,
      \<lparr>pitch = Num 79, duration = Num 1, rest = False\<rparr>,
      \<lparr>pitch = Num 81, duration = Num 1, rest = False\<rparr>,
      \<lparr>pitch = Num 83, duration = Num 1, rest = False\<rparr>]"

text \<open>\<open>let duration = 1\<close> and the two \<open>if\<close>s after it (lines 603 to 616, 627 to 641).\<close>

definition gen_parseDuration :: "jsstring \<Rightarrow> jsnum \<times> jsstring" where
  "gen_parseDuration s =
     (let (n, s) = (case s of
                      c # t \<Rightarrow> if isDigit c then (parseInt c, t) else (1, s)
                    | [] \<Rightarrow> (1, s))
      in case s of
           c # t \<Rightarrow>
             if c = slash
             then (case t of
                     d # u \<Rightarrow> if isDigit d then (jsquot n (parseInt d), u)
                              else (jsquot n 2, t)
                   | [] \<Rightarrow> (jsquot n 2, t))
             else (Num (of_nat n), s)
         | [] \<Rightarrow> (Num (of_nat n), s))"

lemma gen_parseDuration_eq: "gen_parseDuration s = parseDuration s"
  by (simp add: gen_parseDuration_def parseDuration_def readDigit_def readSlash_def
      split: list.split)

function gen_scanLine :: "jsstring \<Rightarrow> note_event list" where
  "gen_scanLine [] = []"
| "gen_scanLine (c # cs) =
     (if c = dquote then gen_scanLine (drop 1 (dropWhile (\<lambda>x. x \<noteq> dquote) cs))
      else if isBar c then gen_scanLine cs
      else if c = space then gen_scanLine cs
      else if isDecoration c then gen_scanLine cs
      else if isNoteLetter c then
        (let s1 = dropWhile isAccidental cs;
             note = c # takeWhile isOctaveMark s1;
             s2 = dropWhile isOctaveMark s1;
             d = gen_parseDuration s2
         in \<lparr>pitch = gen_noteToMIDI note, duration = fst d, rest = False\<rparr>
              # gen_scanLine (snd d))
      else if c = of_char CHR ''z'' then
        (let d = gen_parseDuration cs
         in \<lparr>pitch = Num 0, duration = fst d, rest = True\<rparr> # gen_scanLine (snd d))
      else gen_scanLine cs)"
  by pat_completeness auto

termination
proof (relation "measure length")
  show "wf (measure length)"
    by simp
next
  fix c :: nat and cs :: jsstring
  have "length (dropWhile (\<lambda>x. x \<noteq> dquote) cs) \<le> length cs"
    by (rule length_dropWhile_le)
  then show "(drop 1 (dropWhile (\<lambda>x. x \<noteq> dquote) cs), c # cs) \<in> measure length"
    by simp
next
  fix c :: nat and cs s1 s2 :: jsstring and d :: "jsnum \<times> jsstring"
  assume "s1 = dropWhile isAccidental cs" "s2 = dropWhile isOctaveMark s1"
    "d = gen_parseDuration s2"
  moreover have "length (dropWhile isAccidental cs) \<le> length cs"
    by (rule length_dropWhile_le)
  moreover have "length (dropWhile isOctaveMark (dropWhile isAccidental cs))
      \<le> length (dropWhile isAccidental cs)"
    by (rule length_dropWhile_le)
  moreover have "length (snd (parseDuration (dropWhile isOctaveMark (dropWhile isAccidental cs))))
      \<le> length (dropWhile isOctaveMark (dropWhile isAccidental cs))"
    by (rule length_parseDuration)
  ultimately show "(snd d, c # cs) \<in> measure length"
    by (simp add: gen_parseDuration_eq)
next
  fix c :: nat and cs :: jsstring and d :: "jsnum \<times> jsstring"
  assume "d = gen_parseDuration cs"
  then show "(snd d, c # cs) \<in> measure length"
    using length_parseDuration [of cs] by (simp add: gen_parseDuration_eq)
qed simp_all

declare gen_scanLine.simps(2) [simp del]

fun gen_parseLines :: "jsstring list \<Rightarrow> note_event list" where
  "gen_parseLines [] = []"
| "gen_parseLines (line # lines) =
     (if isHeaderLine line then gen_parseLines lines
      else if trim line = [] then gen_parseLines lines
      else gen_scanLine line @ gen_parseLines lines)"

text \<open>\<open>return notes.length > 0 ? notes : getDefaultNotes();\<close>\<close>

definition gen_parseABCNotation :: "jsstring \<Rightarrow> note_event list" where
  "gen_parseABCNotation notation =
     (let notes = gen_parseLines (split_lines notation)
      in if length notes > 0 then notes else gen_getDefaultNotes)"

section \<open>The arithmetic of the progress report\<close>

text \<open>
  \<open>Math.round(((currentNoteIndex + 1) / totalNotes) * 100)\<close> is computed in IEEE
  double precision: the quotient and the product are each rounded to the nearest
  double, ties to even. \<open>fl64\<close> is that rounding on the rationals, with 53
  significant bits and no bound on the exponent (the values here lie between
  \<open>1 / 2 ^ 32\<close> and 101, far from overflow and from the subnormal numbers).
  \<open>binade x\<close>, for a positive \<open>x\<close>, is the exponent \<open>e\<close> with
  \<open>2 ^ e \<le> x < 2 ^ (e + 1)\<close>. The integers \<open>currentNoteIndex + 1\<close>, \<open>totalNotes\<close> and
  100 are doubles themselves.
\<close>

definition binade :: "rat \<Rightarrow> int" where
  "binade x = (if 1 \<le> x then bitlen \<lfloor>x\<rfloor> - 1 else - bitlen (\<lceil>1 / x\<rceil> - 1))"

definition roundEven :: "rat \<Rightarrow> int" where
  "roundEven x =
     (let f = \<lfloor>x\<rfloor>; r = x - of_int f
      in if r < 1 / 2 then f else if 1 / 2 < r then f + 1
         else if even f then f else f + 1)"

definition fl64 :: "rat \<Rightarrow> rat" where
  "fl64 x =
     (if x = 0 then 0
      else let u = 2 powi (binade \<bar>x\<bar> - 52)
           in sgn x * (of_int (roundEven (\<bar>x\<bar> / u)) * u))"

text \<open>\<open>Math.round\<close>: the nearest integer, a tie going up.\<close>

definition jsRound :: "rat \<Rightarrow> int" where
  "jsRound x = \<lfloor>x + 1 / 2\<rfloor>"

definition progress :: "nat \<Rightarrow> nat \<Rightarrow> int" where
  "progress i totalNotes = jsRound (fl64 (fl64 (of_nat (i + 1) / of_nat totalNotes) * 100))"

section \<open>Playback scheduler (static/js/playback.js)\<close>

text \<open>
  The globals \<open>isPlaying\<close>, \<open>currentNotes\<close> and \<open>currentNoteIndex\<close>, the \<open>disabled\<close>
  flags of the three buttons, and the calls the code makes to its collaborators, in
  the order it makes them: \<open>updatePlaybackStatus\<close>, \<open>showError\<close> and the two methods
  of the synthesizer.

  JavaScript runs one handler at a time, up to its next \<open>await\<close>. An activation of
  \<open>playNotes\<close> that waits at \<open>await new Promise(... setTimeout ...)\<close> is kept in
  \<open>sleeping\<close> with its local constant \<open>totalNotes\<close>; when its timer fires it goes on
  with \<open>currentNoteIndex++\<close>. Which timer fires next is an event of the run, so that
  real time is not modelled.
\<close>

datatype status = Playing | Progress int | Finished | Paused | Stopped

datatype alert = NoMusicToPlay | NoValidNotes | PlaybackFailed

datatype call =
    UpdatePlaybackStatus status
  | ShowError alert
  | TriggerAttackRelease jsnum jsnum
  | TriggerRelease

record player =
  isPlaying :: bool
  currentNotes :: "note_event list"
  currentNoteIndex :: nat
  playBtnDisabled :: bool
  pauseBtnDisabled :: bool
  stopBtnDisabled :: bool
  calls :: "call list"
  sleeping :: "nat list"

text \<open>
  The text that the output element shows before anything has been generated (line 245).
  It begins with the musical score sign U+1F3BC, which a JavaScript string holds as the
  two code units D83C and DFBC.
\<close>

definition placeholder :: jsstring where
  "placeholder = [0xD83C, 0xDFBC] @ js '' No music generated yet. Click ''
     @ [dquote] @ js ''Generate Music'' @ [dquote] @ js '' to start.''"

definition emit :: "call \<Rightarrow> player \<Rightarrow> player" where
  "emit c st = st\<lparr>calls := calls st @ [c]\<rparr>"

definition setButtons :: "bool \<Rightarrow> bool \<Rightarrow> bool \<Rightarrow> player \<Rightarrow> player" where
  "setButtons p q s st = st\<lparr>playBtnDisabled := p, pauseBtnDisabled := q, stopBtnDisabled := s\<rparr>"

text \<open>\<open>note.pitch > 0\<close>: false for \<open>NaN\<close>.\<close>

fun positive :: "jsnum \<Rightarrow> bool" where
  "positive (Num q) \<longleftrightarrow> 0 < q"
| "positive Infinity \<longleftrightarrow> True"
| "positive NaN \<longleftrightarrow> False"

text \<open>
  The \<open>catch\<close> block of \<open>playAudio\<close>, which an error thrown inside the awaited
  \<open>playNotes\<close> reaches.
\<close>

definition playbackFailed :: "player \<Rightarrow> player" where
  "playbackFailed st =
     setButtons False True True ((emit (ShowError PlaybackFailed) st)\<lparr>isPlaying := False\<rparr>)"

text \<open>
  The body of the \<open>while\<close> loop up to its \<open>await\<close>. The synthesizer is called with
  the frequency \<open>440 * 2 ^ ((pitch - 69) / 12)\<close> and the time \<open>0.4 * duration\<close>; the
  call is recorded with the pitch and the duration they are computed from. When
  \<open>currentNotes[currentNoteIndex]\<close> is \<open>undefined\<close>, \<open>note.duration\<close> throws.
\<close>

definition playOne :: "nat \<Rightarrow> player \<Rightarrow> player" where
  "playOne totalNotes st =
     (if currentNoteIndex st < length (currentNotes st) then
        let note = currentNotes st ! currentNoteIndex st;
            st = (if \<not> rest note \<and> positive (pitch note)
                  then emit (TriggerAttackRelease (pitch note) (duration note)) st else st);
            st = emit (UpdatePlaybackStatus (Progress (progress (currentNoteIndex st) totalNotes))) st
        in st\<lparr>sleeping := sleeping st @ [totalNotes]\<rparr>
      else playbackFailed st)"

text \<open>The loop test, and the statements after the loop.\<close>

definition loopTest :: "nat \<Rightarrow> player \<Rightarrow> player" where
  "loopTest totalNotes st =
     (if currentNoteIndex st < totalNotes \<and> isPlaying st then playOne totalNotes st
      else if isPlaying st
      then setButtons False True True
             (emit (UpdatePlaybackStatus Finished) (st\<lparr>isPlaying := False\<rparr>))
      else st)"

definition playNotes :: "player \<Rightarrow> player" where
  "playNotes st = loopTest (length (currentNotes st)) st"

text \<open>The timer of the \<open>k\<close>-th sleeping activation fires.\<close>

definition wake :: "nat \<Rightarrow> player \<Rightarrow> player" where
  "wake k st =
     (if k < length (sleeping st)
      then loopTest (sleeping st ! k)
             (st\<lparr>sleeping := take k (sleeping st) @ drop (Suc k) (sleeping st),
                 currentNoteIndex := currentNoteIndex st + 1\<rparr>)
      else st)"

text \<open>
  \<open>playAudio\<close>. The argument is the \<open>textContent\<close> of the element \<open>musicCode\<close>
  (\<open>None\<close> for \<open>null\<close>). The audio context is taken as running, or as resumed before
  any other handler runs, and the synthesizer as initialised and not throwing.
\<close>

definition playAudio :: "jsstring option \<Rightarrow> player \<Rightarrow> player" where
  "playAudio notation st =
     (case notation of
        None \<Rightarrow> emit (ShowError NoMusicToPlay) st
      | Some abc \<Rightarrow>
          if abc = [] \<or> abc = placeholder then emit (ShowError NoMusicToPlay) st
          else
            let st = setButtons True False False
                       (emit (UpdatePlaybackStatus Playing) (st\<lparr>isPlaying := True\<rparr>));
                st = st\<lparr>currentNotes := parseABCNotation abc\<rparr>
            in if length (currentNotes st) = 0
               then setButtons False True True
                      ((emit (ShowError NoValidNotes) st)\<lparr>isPlaying := False\<rparr>)
               else playNotes (st\<lparr>currentNoteIndex := 0\<rparr>))"

definition pauseAudio :: "player \<Rightarrow> player" where
  "pauseAudio st =
     setButtons False True False
       (emit (UpdatePlaybackStatus Paused) (emit TriggerRelease (st\<lparr>isPlaying := False\<rparr>)))"

definition stopAudio :: "player \<Rightarrow> player" where
  "stopAudio st =
     setButtons False True True
       (emit (UpdatePlaybackStatus Stopped)
          ((emit TriggerRelease (st\<lparr>isPlaying := False\<rparr>))\<lparr>currentNoteIndex := 0\<rparr>))"

datatype event = Play "jsstring option" | Pause | Stop | Wake nat

fun step :: "player \<Rightarrow> event \<Rightarrow> player" where
  "step st (Play notation) = playAudio notation st"
| "step st Pause = pauseAudio st"
| "step st Stop = stopAudio st"
| "step st (Wake k) = wake k st"

definition run :: "event list \<Rightarrow> player \<Rightarrow> player" where
  "run es st = foldl step st es"


definition idle :: player where
  "idle = \<lparr>isPlaying = False, currentNotes = [], currentNoteIndex = 0, playBtnDisabled = False,
     pauseBtnDisabled = True, stopBtnDisabled = True, calls = [], sleeping = []\<rparr>"

section \<open>Definitions for the statements\<close>

text \<open>
  The table as the specification words it: D=62, E=64, F=65, G=67, A=69, B=71, c=72,
  d=74, e=76, f=77, g=79, a=81, b=83, and the E entry, 64, for any other base letter.
\<close>

definition specTable :: "nat \<Rightarrow> int" where
  "specTable c =
     (if c = of_char CHR ''D'' then 62 else if c = of_char CHR ''E'' then 64
      else if c = of_char CHR ''F'' then 65 else if c = of_char CHR ''G'' then 67
      else if c = of_char CHR ''A'' then 69 else if c = of_char CHR ''B'' then 71
      else if c = of_char CHR ''c'' then 72 else if c = of_char CHR ''d'' then 74
      else if c = of_char CHR ''e'' then 76 else if c = of_char CHR ''f'' then 77
      else if c = of_char CHR ''g'' then 79 else if c = of_char CHR ''a'' then 81
      else if c = of_char CHR ''b'' then 83 else 64)"

text \<open>
  The text that a note leaves for its duration: what follows its accidentals and its
  octave marks.
\<close>

definition noteTail :: "jsstring \<Rightarrow> jsstring" where
  "noteTail cs = dropWhile isOctaveMark (dropWhile isAccidental cs)"

text \<open>The calls of one pass through the loop body, for the note at index \<open>i\<close>.\<close>

definition noteCalls :: "note_event list \<Rightarrow> nat \<Rightarrow> nat \<Rightarrow> call list" where
  "noteCalls notes totalNotes i =
     (if \<not> rest (notes ! i) \<and> positive (pitch (notes ! i))
      then [TriggerAttackRelease (pitch (notes ! i)) (duration (notes ! i))] else [])
     @ [UpdatePlaybackStatus (Progress (progress i totalNotes))]"

chapter \<open>Properties\<close>

section \<open>Evaluating the definitions\<close>

text \<open>
  The character constants and tests, the statements of the scan, and the pitch
  mapper. A concrete input is evaluated in two steps, the scan first and the
  pitches of the scanned tokens after it.
\<close>

lemmas char_defs = js_def apostrophe_def comma_def newline_def dquote_def space_def
  slash_def isBar_def isDecoration_def isNoteLetter_def isAccidental_def
  isOctaveMark_def isDigit_def parseInt_def

lemmas scan_defs = parseABCNotation_def isWhiteSpace_def trim_def readDigit_def
  readSlash_def parseDuration_def jsquot_def getDefaultNotes_def

lemmas pitch_defs = noteToMIDI_def noteMap_def inheritedKeys_def

section \<open>One token at a time\<close>

text \<open>
  The branches of the scan loop as equations, one for each kind of token.
\<close>

lemma scanLine_quote:
  "scanLine (dquote # cs) = scanLine (drop 1 (dropWhile (\<lambda>x. x \<noteq> dquote) cs))"
  by simp

lemma scanLine_skip:
  "c \<noteq> dquote \<Longrightarrow> isBar c \<or> c = space \<or> isDecoration c \<Longrightarrow> scanLine (c # cs) = scanLine cs"
  by auto

lemma note_letter_class:
  "isNoteLetter c \<Longrightarrow> c \<noteq> dquote \<and> \<not> isBar c \<and> c \<noteq> space \<and> \<not> isDecoration c
     \<and> \<not> isAccidental c \<and> \<not> isOctaveMark c \<and> \<not> isDigit c \<and> c \<noteq> slash \<and> c \<noteq> newline
     \<and> \<not> isWhiteSpace c \<and> c \<noteq> of_char CHR '':''"
  unfolding char_defs isWhiteSpace_def by auto

lemma rest_letter_class:
  "of_char CHR ''z'' \<noteq> dquote \<and> \<not> isBar (of_char CHR ''z'') \<and> of_char CHR ''z'' \<noteq> space
     \<and> \<not> isDecoration (of_char CHR ''z'') \<and> \<not> isNoteLetter (of_char CHR ''z'')"
  by (simp add: char_defs)

lemma scanLine_note:
  "isNoteLetter c \<Longrightarrow> scanLine (c # cs) =
     \<lparr>pitch = noteToMIDI (c # takeWhile isOctaveMark (dropWhile isAccidental cs)),
      duration = fst (parseDuration (noteTail cs)), rest = False\<rparr>
     # scanLine (snd (parseDuration (noteTail cs)))"
  using note_letter_class [of c] by (simp add: Let_def noteTail_def)

lemma scanLine_rest:
  "scanLine (of_char CHR ''z'' # cs) =
     \<lparr>pitch = Num 0, duration = fst (parseDuration cs), rest = True\<rparr>
     # scanLine (snd (parseDuration cs))"
  using rest_letter_class by (simp add: Let_def)

lemma scanLine_other:
  "c \<noteq> dquote \<Longrightarrow> \<not> isBar c \<Longrightarrow> c \<noteq> space \<Longrightarrow> \<not> isDecoration c \<Longrightarrow> \<not> isNoteLetter c \<Longrightarrow>
   c \<noteq> of_char CHR ''z'' \<Longrightarrow> scanLine (c # cs) = scanLine cs"
  by simp

declare scanLine.simps(2) [simp del]

lemma token_cases [case_names quote skip letter zrest other]:
  obtains "c = dquote"
  | "c \<noteq> dquote" and "isBar c \<or> c = space \<or> isDecoration c"
  | "isNoteLetter c"
  | "c = of_char CHR ''z''"
  | "c \<noteq> dquote" and "\<not> isBar c" and "c \<noteq> space" and "\<not> isDecoration c"
      and "\<not> isNoteLetter c" and "c \<noteq> of_char CHR ''z''"
  by blast

section \<open>The pitch table and the octave marks\<close>

lemma filter_octave_marks:
  "set ms \<subseteq> {apostrophe, comma} \<Longrightarrow> filter (\<lambda>c. c \<noteq> apostrophe \<and> c \<noteq> comma) ms = []"
  by (induction ms) auto

lemma one_letter_not_inherited: "[c] \<notin> set inheritedKeys"
  by (simp add: inheritedKeys_def js_def)

lemma noteMap_one_letter:
  "(case noteMap [c] of Some v \<Rightarrow> v | None \<Rightarrow> 64) = of_int (specTable c)"
  by (simp add: noteMap_def js_def specTable_def)

lemma count_list_zero: "x \<notin> set xs \<Longrightarrow> count_list xs x = 0"
  by (induction xs) auto

lemma noteToMIDI_letter_marks:
  assumes "c \<noteq> apostrophe" and "c \<noteq> comma" and "set ms \<subseteq> {apostrophe, comma}"
  shows "noteToMIDI (c # ms) =
    Num (of_int (max 0 (min 127 (specTable c + 12 * int (count_list ms apostrophe)
      - 12 * int (count_list ms comma)))))"
proof -
  let ?up = "count_list ms apostrophe" and ?down = "count_list ms comma"
  have base: "filter (\<lambda>c. c \<noteq> apostrophe \<and> c \<noteq> comma) (c # ms) = [c]"
    using assms by (simp add: filter_octave_marks)
  have up: "(if apostrophe \<in> set (c # ms)
             then m + of_nat (count_list (c # ms) apostrophe) * 12 else m) = m + of_nat ?up * 12"
    for m :: rat
    using assms(1) by (simp add: count_list_zero)
  have down: "(if comma \<in> set (c # ms)
             then m - of_nat (count_list (c # ms) comma) * 12 else m) = m - of_nat ?down * 12"
    for m :: rat
    using assms(2) by (simp add: count_list_zero)
  have "noteToMIDI (c # ms) =
      Num (max 0 (min 127 (of_int (specTable c) + of_nat ?up * 12 - of_nat ?down * 12)))"
    unfolding noteToMIDI_def Let_def base up down
    by (simp only: one_letter_not_inherited noteMap_one_letter if_False)
  also have "of_int (specTable c) + of_nat ?up * 12 - of_nat ?down * 12
      = (of_int (specTable c + 12 * int ?up - 12 * int ?down) :: rat)"
    by simp
  also have "max 0 (min 127 (of_int (specTable c + 12 * int ?up - 12 * int ?down) :: rat))
      = of_int (max 0 (min 127 (specTable c + 12 * int ?up - 12 * int ?down)))"
    by (simp add: max_def min_def)
  finally show ?thesis .
qed

text \<open>
  C2. A token made of a base letter (any code unit but the two octave marks) and any
  number of octave marks maps to an integer between 0 and 127: the table value of the
  letter, 64 for a letter outside the table, plus 12 for every apostrophe and minus
  12 for every comma, clamped to 0..127. In particular \<open>c\<close> is 72, \<open>c'\<close> is 84,
  \<open>c,,\<close> is 48 and \<open>C\<close> is 64.
\<close>

theorem noteToMIDI_table_octaves_clamped:
  assumes "c \<noteq> apostrophe" and "c \<noteq> comma" and "set ms \<subseteq> {apostrophe, comma}"
  shows "(\<exists>p::int. 0 \<le> p \<and> p \<le> 127 \<and> noteToMIDI (c # ms) = Num (of_int p) \<and>
            p = max 0 (min 127 (specTable c + 12 * int (count_list ms apostrophe)
                  - 12 * int (count_list ms comma)))) \<and>
         noteToMIDI (js ''c'') = Num 72 \<and>
         noteToMIDI (js [CHR ''c'', CHR 0x27]) = Num 84 \<and>
         noteToMIDI (js ''c,,'') = Num 48 \<and>
         noteToMIDI (js ''C'') = Num 64"
proof -
  have "noteToMIDI (js ''c'') = Num 72"
    by (simp add: pitch_defs char_defs)
  moreover have "noteToMIDI (js [CHR ''c'', CHR 0x27]) = Num 84"
    by (simp add: pitch_defs char_defs)
  moreover have "noteToMIDI (js ''c,,'') = Num 48"
    by (simp add: pitch_defs char_defs)
  moreover have "noteToMIDI (js ''C'') = Num 64"
    by (simp add: pitch_defs char_defs)
  moreover have "\<exists>p::int. 0 \<le> p \<and> p \<le> 127 \<and> noteToMIDI (c # ms) = Num (of_int p) \<and>
      p = max 0 (min 127 (specTable c + 12 * int (count_list ms apostrophe)
            - 12 * int (count_list ms comma)))"
    using noteToMIDI_letter_marks [OF assms] by simp
  ultimately show ?thesis
    by blast
qed

theorem noteToMIDI_table_octaves_clamped_witness:
  "noteToMIDI (js ''g,,,,,,,'') = Num 0"
proof -
  have "of_char CHR ''g'' \<noteq> apostrophe" and "of_char CHR ''g'' \<noteq> comma"
    and "set (js '',,,,,,,'') \<subseteq> {apostrophe, comma}"
    by (simp_all add: char_defs)
  from noteToMIDI_table_octaves_clamped [OF this]
  have "noteToMIDI (of_char CHR ''g'' # js '',,,,,,,'') =
    Num (of_int (max 0 (min 127 (specTable (of_char CHR ''g'')
      + 12 * int (count_list (js '',,,,,,,'') apostrophe)
      - 12 * int (count_list (js '',,,,,,,'') comma)))))"
    by blast
  then show ?thesis
    by (simp add: char_defs specTable_def)
qed

section \<open>The parser on concrete notations\<close>

text \<open>
  C5. The notation \<open>X:1\<close>, \<open>K:G\<close>, \<open>AB cd|z2 e2|\<close> (three lines) parses to six events:
  A, B, c and d with duration 1, a rest of duration 2 and e with duration 2. The two
  header lines, the space and the bar lines push nothing.
\<close>

theorem parse_end_to_end_example:
  "parseABCNotation (js ''X:1\<newline>K:G\<newline>AB cd|z2 e2|'') =
     [\<lparr>pitch = Num 69, duration = Num 1, rest = False\<rparr>,
      \<lparr>pitch = Num 71, duration = Num 1, rest = False\<rparr>,
      \<lparr>pitch = Num 72, duration = Num 1, rest = False\<rparr>,
      \<lparr>pitch = Num 74, duration = Num 1, rest = False\<rparr>,
      \<lparr>pitch = Num 0, duration = Num 2, rest = True\<rparr>,
      \<lparr>pitch = Num 76, duration = Num 2, rest = False\<rparr>]"
  apply (simp add: scanLine.simps(2) char_defs scan_defs)
  apply (simp add: pitch_defs char_defs)
  done

text \<open>
  C1. \<open>parseABCNotation\<close> is a total function (the scan of a line terminates on every
  line, see the termination proof of \<open>scanLine\<close>, and no statement of it raises) and
  its result is never empty, whatever the code units of the input are. On the empty
  string and on the headers-only notation \<open>X:1\<close>, \<open>T:Foo\<close> the result is the default
  sequence: pitches 64, 67, 69, 71, 76, 79, 81, 83, each with duration 1 and no rest.
\<close>

theorem parse_total_nonempty_default:
  "parseABCNotation s \<noteq> [] \<and>
   parseABCNotation (js []) =
     [\<lparr>pitch = Num 64, duration = Num 1, rest = False\<rparr>,
      \<lparr>pitch = Num 67, duration = Num 1, rest = False\<rparr>,
      \<lparr>pitch = Num 69, duration = Num 1, rest = False\<rparr>,
      \<lparr>pitch = Num 71, duration = Num 1, rest = False\<rparr>,
      \<lparr>pitch = Num 76, duration = Num 1, rest = False\<rparr>,
      \<lparr>pitch = Num 79, duration = Num 1, rest = False\<rparr>,
      \<lparr>pitch = Num 81, duration = Num 1, rest = False\<rparr>,
      \<lparr>pitch = Num 83, duration = Num 1, rest = False\<rparr>] \<and>
   parseABCNotation (js ''X:1\<newline>T:Foo\<newline>'') =
     [\<lparr>pitch = Num 64, duration = Num 1, rest = False\<rparr>,
      \<lparr>pitch = Num 67, duration = Num 1, rest = False\<rparr>,
      \<lparr>pitch = Num 69, duration = Num 1, rest = False\<rparr>,
      \<lparr>pitch = Num 71, duration = Num 1, rest = False\<rparr>,
      \<lparr>pitch = Num 76, duration = Num 1, rest = False\<rparr>,
      \<lparr>pitch = Num 79, duration = Num 1, rest = False\<rparr>,
      \<lparr>pitch = Num 81, duration = Num 1, rest = False\<rparr>,
      \<lparr>pitch = Num 83, duration = Num 1, rest = False\<rparr>]"
proof -
  have "parseABCNotation s \<noteq> []"
    by (simp add: parseABCNotation_def Let_def getDefaultNotes_def)
  moreover have "parseABCNotation (js []) = getDefaultNotes"
    by (simp add: scanLine.simps(2) char_defs parseABCNotation_def trim_def)
  moreover have "parseABCNotation (js ''X:1\<newline>T:Foo\<newline>'') = getDefaultNotes"
    by (simp add: scanLine.simps(2) char_defs parseABCNotation_def trim_def)
  ultimately show ?thesis
    by (simp add: getDefaultNotes_def)
qed

section \<open>Durations of the parsed events\<close>












lemma length_after_quote: "length (drop 1 (dropWhile P cs)) < length (c # cs)"
  using length_dropWhile_le [of P cs] by simp

lemma length_noteTail: "length (snd (parseDuration (noteTail cs))) < length (c # cs)"
proof -
  have "length (noteTail cs) \<le> length cs"
    unfolding noteTail_def
    using length_dropWhile_le [of isOctaveMark "dropWhile isAccidental cs"]
      length_dropWhile_le [of isAccidental cs] by linarith
  then show ?thesis
    using length_parseDuration [of "noteTail cs"] by simp
qed

lemma length_restTail: "length (snd (parseDuration cs)) < length (c # cs)"
  using length_parseDuration [of cs] by simp




lemma split_lines_nonempty: "split_lines s \<noteq> []"
  by (induction s) (auto split: list.splits)







section \<open>How a duration is read\<close>

text \<open>
  C4, as the code has it. The duration of a note is read from the text after its
  octave marks, the duration of a rest from the text after the \<open>z\<close>. One digit, not a
  digit sequence, is the numerator (1 when there is none); after a \<open>/\<close>, one digit is
  the denominator (2 when there is none). Whatever follows is left to the scan, which
  skips a digit like any other character. So \<open>c12\<close> has duration 1 and \<open>c3/16\<close>
  duration 3; a bare letter has duration 1 and a trailing \<open>/\<close> halves the numerator.
\<close>

theorem duration_reads_single_digits:
  "(isNoteLetter c \<longrightarrow> scanLine (c # cs) =
      \<lparr>pitch = noteToMIDI (c # takeWhile isOctaveMark (dropWhile isAccidental cs)),
       duration = fst (parseDuration (noteTail cs)), rest = False\<rparr>
      # scanLine (snd (parseDuration (noteTail cs)))) \<and>
   scanLine (of_char CHR ''z'' # cs) =
      \<lparr>pitch = Num 0, duration = fst (parseDuration cs), rest = True\<rparr>
      # scanLine (snd (parseDuration cs)) \<and>
   parseDuration [] = (Num 1, []) \<and>
   (\<not> isDigit x \<and> x \<noteq> slash \<longrightarrow> parseDuration (x # t) = (Num 1, x # t)) \<and>
   (isDigit a \<longrightarrow> parseDuration [a] = (Num (of_nat (parseInt a)), [])) \<and>
   (isDigit a \<and> x \<noteq> slash \<longrightarrow>
      parseDuration (a # x # t) = (Num (of_nat (parseInt a)), x # t)) \<and>
   (isDigit a \<and> isDigit b \<longrightarrow>
      parseDuration (a # slash # b # t) = (jsquot (parseInt a) (parseInt b), t)) \<and>
   (isDigit b \<longrightarrow> parseDuration (slash # b # t) = (jsquot 1 (parseInt b), t)) \<and>
   (isDigit a \<longrightarrow> parseDuration [a, slash] = (Num (of_nat (parseInt a) / 2), [])) \<and>
   (isDigit a \<and> \<not> isDigit x \<longrightarrow>
      parseDuration (a # slash # x # t) = (Num (of_nat (parseInt a) / 2), x # t)) \<and>
   parseDuration [slash] = (Num (1 / 2), []) \<and>
   (\<not> isDigit x \<longrightarrow> parseDuration (slash # x # t) = (Num (1 / 2), x # t)) \<and>
   parseABCNotation (js ''c12'') = [\<lparr>pitch = Num 72, duration = Num 1, rest = False\<rparr>] \<and>
   parseABCNotation (js ''c3/16'') = [\<lparr>pitch = Num 72, duration = Num 3, rest = False\<rparr>] \<and>
   parseABCNotation (js ''c'') = [\<lparr>pitch = Num 72, duration = Num 1, rest = False\<rparr>] \<and>
   parseABCNotation (js ''c3/'') = [\<lparr>pitch = Num 72, duration = Num (3 / 2), rest = False\<rparr>]"
proof -
  have slash_no_digit: "\<not> isDigit slash"
    by (simp add: char_defs)
  have nt: "isNoteLetter c \<longrightarrow> scanLine (c # cs) =
      \<lparr>pitch = noteToMIDI (c # takeWhile isOctaveMark (dropWhile isAccidental cs)),
       duration = fst (parseDuration (noteTail cs)), rest = False\<rparr>
      # scanLine (snd (parseDuration (noteTail cs)))"
    using scanLine_note by blast
  have r0: "parseDuration [] = (Num 1, [])"
    by (simp add: parseDuration_def readDigit_def readSlash_def)
  have r1: "\<not> isDigit x \<and> x \<noteq> slash \<longrightarrow> parseDuration (x # t) = (Num 1, x # t)"
    by (simp add: parseDuration_def readDigit_def readSlash_def)
  have r2: "isDigit a \<longrightarrow> parseDuration [a] = (Num (of_nat (parseInt a)), [])"
    by (simp add: parseDuration_def readDigit_def readSlash_def)
  have r3: "isDigit a \<and> x \<noteq> slash \<longrightarrow>
      parseDuration (a # x # t) = (Num (of_nat (parseInt a)), x # t)"
    by (simp add: parseDuration_def readDigit_def readSlash_def)
  have r4: "isDigit a \<and> isDigit b \<longrightarrow>
      parseDuration (a # slash # b # t) = (jsquot (parseInt a) (parseInt b), t)"
    by (simp add: parseDuration_def readDigit_def readSlash_def)
  have r5: "isDigit b \<longrightarrow> parseDuration (slash # b # t) = (jsquot 1 (parseInt b), t)"
    using slash_no_digit by (simp add: parseDuration_def readDigit_def readSlash_def)
  have r6: "isDigit a \<longrightarrow> parseDuration [a, slash] = (Num (of_nat (parseInt a) / 2), [])"
    by (simp add: parseDuration_def readDigit_def readSlash_def jsquot_def)
  have r7: "isDigit a \<and> \<not> isDigit x \<longrightarrow>
      parseDuration (a # slash # x # t) = (Num (of_nat (parseInt a) / 2), x # t)"
    by (simp add: parseDuration_def readDigit_def readSlash_def jsquot_def)
  have r8: "parseDuration [slash] = (Num (1 / 2), [])"
    using slash_no_digit by (simp add: parseDuration_def readDigit_def readSlash_def jsquot_def)
  have r9: "\<not> isDigit x \<longrightarrow> parseDuration (slash # x # t) = (Num (1 / 2), x # t)"
    using slash_no_digit by (simp add: parseDuration_def readDigit_def readSlash_def jsquot_def)
  have e1: "parseABCNotation (js ''c12'') = [\<lparr>pitch = Num 72, duration = Num 1, rest = False\<rparr>]"
    apply (simp add: scanLine.simps(2) char_defs scan_defs)
    apply (simp add: pitch_defs char_defs)
    done
  have e2: "parseABCNotation (js ''c3/16'') = [\<lparr>pitch = Num 72, duration = Num 3, rest = False\<rparr>]"
    apply (simp add: scanLine.simps(2) char_defs scan_defs)
    apply (simp add: pitch_defs char_defs)
    done
  have e3: "parseABCNotation (js ''c'') = [\<lparr>pitch = Num 72, duration = Num 1, rest = False\<rparr>]"
    apply (simp add: scanLine.simps(2) char_defs scan_defs)
    apply (simp add: pitch_defs char_defs)
    done
  have e4: "parseABCNotation (js ''c3/'') = [\<lparr>pitch = Num 72, duration = Num (3 / 2), rest = False\<rparr>]"
    apply (simp add: scanLine.simps(2) char_defs scan_defs)
    apply (simp add: pitch_defs char_defs)
    done
  show ?thesis
    using nt scanLine_rest [of cs] r0 r1 r2 r3 r4 r5 r6 r7 r8 r9 e1 e2 e3 e4
    by (intro conjI)
qed

theorem duration_reads_single_digits_witness:
  "scanLine (js ''e12'') =
     \<lparr>pitch = noteToMIDI (js ''e''), duration = Num 1, rest = False\<rparr> # scanLine (js ''2'') \<and>
   parseDuration (js ''|'') = (Num 1, js ''|'') \<and>
   parseDuration (js ''7'') = (Num 7, []) \<and>
   parseDuration (js ''12'') = (Num 1, js ''2'') \<and>
   parseDuration (js ''3/16'') = (Num 3, js ''6'') \<and>
   parseDuration (js ''/4|'') = (Num (1 / 4), js ''|'') \<and>
   parseDuration (js ''3/'') = (Num (3 / 2), []) \<and>
   parseDuration (js ''3/|'') = (Num (3 / 2), js ''|'') \<and>
   parseDuration (js ''/|'') = (Num (1 / 2), js ''|'')"
  using duration_reads_single_digits [of "of_char CHR ''e''" "js ''12''" "of_char CHR ''|''" "[]"
      "of_char CHR ''7''" "of_char CHR ''4''"]
    duration_reads_single_digits [of "of_char CHR ''e''" "js ''12''" "of_char CHR ''2''" "[]"
      "of_char CHR ''1''" "of_char CHR ''4''"]
    duration_reads_single_digits [of "of_char CHR ''e''" "js ''12''" "of_char CHR ''|''" "js ''6''"
      "of_char CHR ''3''" "of_char CHR ''1''"]
    duration_reads_single_digits [of "of_char CHR ''e''" "js ''12''" "of_char CHR ''|''" "js ''|''"
      "of_char CHR ''3''" "of_char CHR ''4''"]
    duration_reads_single_digits [of "of_char CHR ''e''" "js ''12''" "of_char CHR ''|''" "[]"
      "of_char CHR ''3''" "of_char CHR ''4''"]
  by (simp add: char_defs jsquot_def noteTail_def)

text \<open>
  The claim C4 as it is stated fails on its own examples: \<open>c12\<close> does not have
  duration 12, and \<open>c3/16\<close> does not have duration 3/16.
\<close>

theorem duration_digit_sequence_counterexample:
  "parseABCNotation (js ''c12'') \<noteq> [\<lparr>pitch = Num 72, duration = Num 12, rest = False\<rparr>] \<and>
   map duration (parseABCNotation (js ''c12'')) = [Num 1] \<and>
   parseABCNotation (js ''c3/16'') \<noteq>
     [\<lparr>pitch = Num 72, duration = Num (3 / 16), rest = False\<rparr>] \<and>
   map duration (parseABCNotation (js ''c3/16'')) = [Num 3]"
proof -
  have "parseABCNotation (js ''c12'') = [\<lparr>pitch = Num 72, duration = Num 1, rest = False\<rparr>]"
    apply (simp add: scanLine.simps(2) char_defs scan_defs)
    apply (simp add: pitch_defs char_defs)
    done
  moreover have "parseABCNotation (js ''c3/16'') =
      [\<lparr>pitch = Num 72, duration = Num 3, rest = False\<rparr>]"
    apply (simp add: scanLine.simps(2) char_defs scan_defs)
    apply (simp add: pitch_defs char_defs)
    done
  ultimately show ?thesis
    by simp
qed

section \<open>The two copies of the core agree\<close>

lemma gen_noteMap_eq: "gen_noteMap = noteMap"
  unfolding gen_noteMap_def noteMap_def ..

lemma gen_noteToMIDI_eq: "gen_noteToMIDI t = noteToMIDI t"
  unfolding gen_noteToMIDI_def noteToMIDI_def gen_noteMap_eq ..

lemma gen_scanLine_eq: "gen_scanLine l = scanLine l"
proof (induction l rule: length_induct)
  case (1 l)
  show ?case
  proof (cases l)
    case Nil
    then show ?thesis by simp
  next
    case (Cons c cs)
    have IH: "gen_scanLine r = scanLine r" if "length r < length (c # cs)" for r
      using "1.IH" that Cons by simp
    have "gen_scanLine (c # cs) = scanLine (c # cs)"
      unfolding gen_scanLine.simps(2) scanLine.simps(2) Let_def gen_parseDuration_eq
        gen_noteToMIDI_eq
      using IH [OF length_after_quote [of "\<lambda>x. x \<noteq> dquote" cs c]]
        IH [OF length_noteTail [of cs c]] IH [OF length_restTail [of cs c]] IH [of cs]
      by (simp add: noteTail_def)
    then show ?thesis
      using Cons by simp
  qed
qed

lemma gen_parseLines_eq: "gen_parseLines ls = parseLines ls"
  by (induction ls) (simp_all add: gen_scanLine_eq)

text \<open>
  C10. The two copies compute the same results on every input: the same event
  sequences, the same pitch numbers and the same default sequence.
\<close>

theorem copies_agree:
  "gen_parseABCNotation s = parseABCNotation s \<and>
   gen_noteToMIDI t = noteToMIDI t \<and>
   gen_getDefaultNotes = getDefaultNotes"
proof (intro conjI)
  show d: "gen_getDefaultNotes = getDefaultNotes"
    by (simp add: gen_getDefaultNotes_def getDefaultNotes_def)
  show "gen_noteToMIDI t = noteToMIDI t"
    by (rule gen_noteToMIDI_eq)
  show "gen_parseABCNotation s = parseABCNotation s"
    by (simp add: gen_parseABCNotation_def parseABCNotation_def gen_parseLines_eq d Let_def)
qed

section \<open>Accidental markers\<close>

lemma accidental_class:
  "isAccidental a \<Longrightarrow> a \<noteq> dquote \<and> a \<noteq> newline \<and> a \<noteq> of_char CHR '':''"
  by (auto simp: char_defs)

lemma parseDuration_append:
  assumes "\<not> isDigit c" and "c \<noteq> slash"
  shows "parseDuration (w @ c # u) = (fst (parseDuration w), snd (parseDuration w) @ c # u)"
proof (cases w)
  case Nil
  then show ?thesis
    using assms by (simp add: parseDuration_def readDigit_def readSlash_def)
next
  case w1: (Cons a w')
  show ?thesis
  proof (cases w')
    case Nil
    then show ?thesis
      using assms w1 by (simp add: parseDuration_def readDigit_def readSlash_def)
  next
    case w2: (Cons b w'')
    show ?thesis
    proof (cases w'')
      case Nil
      then show ?thesis
        using assms w1 w2 by (simp add: parseDuration_def readDigit_def readSlash_def)
    next
      case (Cons d w''')
      then show ?thesis
        using assms w1 w2 by (simp add: parseDuration_def readDigit_def readSlash_def)
    qed
  qed
qed

lemma noteTail_append:
  "isNoteLetter c \<Longrightarrow> noteTail (w @ c # u) = noteTail w @ c # u"
  using note_letter_class [of c] by (simp add: noteTail_def dropWhile_append3)

lemma note_marks_append:
  "isNoteLetter c \<Longrightarrow>
   takeWhile isOctaveMark (dropWhile isAccidental (w @ c # u))
     = takeWhile isOctaveMark (dropWhile isAccidental w)"
  using note_letter_class [of c] by (simp add: dropWhile_append3 takeWhile_tail)

lemma after_quote_append:
  assumes "c \<noteq> dquote" and "dquote \<notin> set u"
  shows "(\<exists>r. length r < Suc (length w) \<and>
            (\<forall>v. drop 1 (dropWhile (\<lambda>x. x \<noteq> dquote) (w @ c # v)) = r @ c # v)) \<or>
         (\<forall>v. drop 1 (dropWhile (\<lambda>x. x \<noteq> dquote) (w @ c # u @ v))
            = drop 1 (dropWhile (\<lambda>x. x \<noteq> dquote) v))"
proof (cases "dquote \<in> set w")
  case True
  let ?d = "dropWhile (\<lambda>x. x \<noteq> dquote) w"
  obtain y ys where dy: "?d = y # ys"
    using True by (cases ?d) auto
  have "dropWhile (\<lambda>x. x \<noteq> dquote) (w @ c # v) = ?d @ c # v" for v
    using True by (simp add: dropWhile_append1 [of dquote])
  then have "drop 1 (dropWhile (\<lambda>x. x \<noteq> dquote) (w @ c # v)) = ys @ c # v" for v
    by (simp add: dy)
  moreover have "length ys < Suc (length w)"
    using length_dropWhile_le [of "\<lambda>x. x \<noteq> dquote" w] by (simp add: dy)
  ultimately show ?thesis
    by blast
next
  case False
  have "dropWhile (\<lambda>x. x \<noteq> dquote) (w @ c # u @ v) = dropWhile (\<lambda>x. x \<noteq> dquote) v" for v
  proof -
    have "\<And>x. x \<in> set (w @ c # u) \<Longrightarrow> x \<noteq> dquote"
      using False assms by auto
    then have "dropWhile (\<lambda>x. x \<noteq> dquote) ((w @ c # u) @ v) = dropWhile (\<lambda>x. x \<noteq> dquote) v"
      by (rule dropWhile_append2)
    then show ?thesis by simp
  qed
  then show ?thesis
    by simp
qed

lemma scanLine_accidentals:
  assumes c: "isNoteLetter c" and acc: "\<forall>a \<in> set acc. isAccidental a"
  shows "scanLine (p @ c # acc @ t) = scanLine (p @ c # t)"
proof (induction p rule: length_induct)
  case (1 p)
  have cc: "c \<noteq> dquote" "\<not> isDigit c" "c \<noteq> slash"
    using note_letter_class [OF c] by simp_all
  have IH: "scanLine (r @ c # acc @ t) = scanLine (r @ c # t)" if "length r < length p" for r
    using "1.IH" that by simp
  show ?case
  proof (cases p)
    case Nil
    have "dropWhile isAccidental (acc @ t) = dropWhile isAccidental t"
      using acc by (simp add: dropWhile_append2)
    then show ?thesis
      using Nil by (simp add: scanLine_note [OF c] noteTail_def)
  next
    case (Cons x w)
    show ?thesis
    proof (cases x rule: token_cases)
      case quote
      have nq: "dquote \<notin> set acc" "dquote \<notin> set ([] :: jsstring)"
        using acc accidental_class by auto
      consider r where "length r < Suc (length w)"
          and "\<And>v. drop 1 (dropWhile (\<lambda>x. x \<noteq> dquote) (w @ c # v)) = r @ c # v"
        | "\<And>v. drop 1 (dropWhile (\<lambda>x. x \<noteq> dquote) (w @ c # acc @ v))
            = drop 1 (dropWhile (\<lambda>x. x \<noteq> dquote) v)"
          and "\<And>v. drop 1 (dropWhile (\<lambda>x. x \<noteq> dquote) (w @ c # [] @ v))
            = drop 1 (dropWhile (\<lambda>x. x \<noteq> dquote) v)"
        using after_quote_append [OF cc(1) nq(1), of w] after_quote_append [OF cc(1) nq(2), of w]
        by blast
      then show ?thesis
      proof cases
        case 1
        then show ?thesis
          using IH [of r] Cons quote by (simp add: scanLine_quote)
      next
        case 2
        then show ?thesis
          using Cons quote by (simp add: scanLine_quote)
      qed
    next
      case skip
      then show ?thesis
        using IH [of w] Cons by (simp add: scanLine_skip)
    next
      case letter
      let ?r = "snd (parseDuration (noteTail w))"
      have "length ?r < length (x # w)"
        by (rule length_noteTail)
      then have "scanLine (?r @ c # acc @ t) = scanLine (?r @ c # t)"
        using IH Cons by simp
      then show ?thesis
        using Cons
        by (simp add: scanLine_note [OF letter] noteTail_append [OF c] note_marks_append [OF c]
            parseDuration_append [OF cc(2,3)])
    next
      case zrest
      let ?r = "snd (parseDuration w)"
      have "length ?r < length (x # w)"
        by (rule length_restTail)
      then have "scanLine (?r @ c # acc @ t) = scanLine (?r @ c # t)"
        using IH Cons by simp
      then show ?thesis
        unfolding Cons zrest append_Cons scanLine_rest parseDuration_append [OF cc(2,3)]
          fst_conv snd_conv
        by (rule arg_cong)
    next
      case other
      then show ?thesis
        using IH [of w] Cons by (simp add: scanLine_other)
    qed
  qed
qed

subsection \<open>Lines of a notation with a marker inserted\<close>

lemma split_lines_Cons:
  "split_lines (x # s) =
     (if x = newline then [] # split_lines s
      else (x # hd (split_lines s)) # tl (split_lines s))"
  using split_lines_nonempty [of s] by (cases "split_lines s") auto

lemma split_lines_one_line:
  "newline \<notin> set m \<Longrightarrow>
   split_lines (m @ b) = (m @ hd (split_lines b)) # tl (split_lines b)"
proof (induction m)
  case Nil
  then show ?case
    using split_lines_nonempty [of b] by simp
next
  case (Cons x m)
  then show ?case
    by (simp add: split_lines_Cons del: split_lines.simps)
qed

lemma split_lines_append:
  "split_lines (a @ b) =
     butlast (split_lines a) @ (last (split_lines a) @ hd (split_lines b)) # tl (split_lines b)"
proof (induction a)
  case Nil
  then show ?case
    using split_lines_nonempty [of b] by simp
next
  case (Cons x a)
  have ne: "split_lines a \<noteq> []"
    by (rule split_lines_nonempty)
  show ?case
  proof (cases "x = newline")
    case True
    then show ?thesis
      using Cons ne by (simp add: split_lines_Cons del: split_lines.simps)
  next
    case False
    show ?thesis
    proof (cases "butlast (split_lines a)")
      case Nil
      then have "split_lines a = [last (split_lines a)]"
        using ne by (metis append_butlast_last_id append_Nil)
      then obtain l where l: "split_lines a = [l]"
        by blast
      show ?thesis
        using False Cons
        by (simp add: split_lines_Cons l del: split_lines.simps)
    next
      case (Cons l ls)
      then obtain z where z: "split_lines a = l # ls @ [z]"
        using ne by (metis append_butlast_last_id append_Cons)
      show ?thesis
        using False Cons.IH
        by (simp add: split_lines_Cons z butlast_append del: split_lines.simps)
    qed
  qed
qed

lemma last_split_lines_empty:
  "last (split_lines s) = [] \<Longrightarrow> s = [] \<or> last s = newline"
proof (induction s)
  case Nil
  then show ?case by simp
next
  case (Cons x s)
  have ne: "split_lines s \<noteq> []"
    by (rule split_lines_nonempty)
  show ?case
  proof (cases "x = newline")
    case True
    then have "last (split_lines s) = []"
      using Cons.prems ne by (simp add: split_lines_Cons del: split_lines.simps)
    then show ?thesis
      using Cons.IH True by auto
  next
    case False
    show ?thesis
    proof (cases "tl (split_lines s) = []")
      case True
      then show ?thesis
        using Cons.prems False by (simp add: split_lines_Cons del: split_lines.simps)
    next
      case tl: False
      then have "last (split_lines s) = last (tl (split_lines s))"
        using ne by (metis last_tl list.sel(2))
      then have "last (split_lines s) = []"
        using Cons.prems False tl by (simp add: split_lines_Cons del: split_lines.simps)
      moreover have "s \<noteq> []"
        using tl by auto
      ultimately show ?thesis
        using Cons.IH by auto
    qed
  qed
qed

lemma parseLines_append: "parseLines (xs @ ys) = parseLines xs @ parseLines ys"
  by (induction xs) simp_all

lemma in_set_dropWhile: "x \<in> set xs \<Longrightarrow> \<not> P x \<Longrightarrow> x \<in> set (dropWhile P xs)"
  by (induction xs) auto

lemma trim_not_blank:
  assumes "x \<in> set l" and "\<not> isWhiteSpace x"
  shows "trim l \<noteq> []"
proof -
  have "x \<in> set (rev (dropWhile isWhiteSpace l))"
    using assms in_set_dropWhile [of x l isWhiteSpace] by simp
  then have "x \<in> set (dropWhile isWhiteSpace (rev (dropWhile isWhiteSpace l)))"
    using assms(2) by (rule in_set_dropWhile)
  then have "dropWhile isWhiteSpace (rev (dropWhile isWhiteSpace l)) \<noteq> []"
    by (metis empty_iff empty_set)
  then show ?thesis
    unfolding trim_def by simp
qed

lemma header_first_line:
  "isHeaderLine (c # hd (split_lines post)) = isHeaderLine (c # post)"
proof (cases post)
  case Nil
  then show ?thesis by simp
next
  case (Cons x post')
  then show ?thesis
    by (auto simp: split_lines_Cons newline_def simp del: split_lines.simps)
qed

lemma header_with_accidentals:
  assumes c: "isNoteLetter c" and acc: "\<forall>a \<in> set acc. isAccidental a"
    and h: "p = [] \<Longrightarrow> \<not> isHeaderLine (c # q)"
  shows "isHeaderLine (p @ c # acc @ q) = isHeaderLine (p @ c # q)"
proof (cases p)
  case Nil
  have "\<not> isHeaderLine (c # acc @ q)"
  proof (cases acc)
    case Nil
    then show ?thesis using h \<open>p = []\<close> by simp
  next
    case (Cons a acc')
    then show ?thesis
      using acc accidental_class [of a] by simp
  qed
  then show ?thesis
    using h Nil by simp
next
  case p1: (Cons x p')
  show ?thesis
  proof (cases p')
    case Nil
    then show ?thesis
      using p1 note_letter_class [OF c] by simp
  next
    case (Cons y p'')
    then show ?thesis
      using p1 by simp
  qed
qed

lemma parseLines_accidentals:
  assumes c: "isNoteLetter c" and acc: "\<forall>a \<in> set acc. isAccidental a"
    and h: "p = [] \<Longrightarrow> \<not> isHeaderLine (c # q)"
  shows "parseLines [p @ c # acc @ q] = parseLines [p @ c # q]"
proof -
  have "trim (p @ c # acc @ q) \<noteq> []" and "trim (p @ c # q) \<noteq> []"
    using note_letter_class [OF c] by (simp_all add: trim_not_blank [of c])
  then show ?thesis
    using header_with_accidentals [OF c acc h] scanLine_accidentals [OF c acc, of p q]
    by simp
qed

text \<open>
  C8, as the code has it. Accidental markers after a note letter are skipped by the
  scan and change nothing in the parsed events, with one exception: an upper-case
  letter that starts a line and is followed by a colon makes the line a header,
  which is skipped, while the same letter followed by a marker starts a note. Unless
  the letter is in that place, the notation with any number of markers inserted after
  it, or removed there, parses to the same event sequence.
\<close>

theorem accidentals_leave_events_unchanged:
  assumes "isNoteLetter c" and "\<forall>a \<in> set acc. isAccidental a"
    and "pre = [] \<or> last pre = newline \<longrightarrow> \<not> isHeaderLine (c # post)"
  shows "parseABCNotation (pre @ c # acc @ post) = parseABCNotation (pre @ c # post)"
proof -
  let ?P = "split_lines pre" and ?Q = "split_lines post"
  have nl: "newline \<notin> set (c # acc)" "newline \<notin> set [c]"
    using assms(1,2) note_letter_class [of c] accidental_class by auto
  have with_acc: "split_lines (pre @ c # acc @ post)
      = butlast ?P @ (last ?P @ c # acc @ hd ?Q) # tl ?Q"
    using split_lines_append [of pre "(c # acc) @ post"] split_lines_one_line [OF nl(1), of post]
    by simp
  have without: "split_lines (pre @ c # post) = butlast ?P @ (last ?P @ c # hd ?Q) # tl ?Q"
    using split_lines_append [of pre "[c] @ post"] split_lines_one_line [OF nl(2), of post]
    by simp
  have "\<not> isHeaderLine (c # hd ?Q)" if "last ?P = []"
    using that last_split_lines_empty [of pre] assms(3) header_first_line [of c post] by blast
  then have "parseLines [last ?P @ c # acc @ hd ?Q] = parseLines [last ?P @ c # hd ?Q]"
    using parseLines_accidentals [OF assms(1,2)] by blast
  then have "parseLines (split_lines (pre @ c # acc @ post))
      = parseLines (split_lines (pre @ c # post))"
    unfolding with_acc without
    using parseLines_append [of "butlast ?P" "(last ?P @ c # acc @ hd ?Q) # tl ?Q"]
      parseLines_append [of "butlast ?P" "(last ?P @ c # hd ?Q) # tl ?Q"]
      parseLines_append [of "[last ?P @ c # acc @ hd ?Q]" "tl ?Q"]
      parseLines_append [of "[last ?P @ c # hd ?Q]" "tl ?Q"]
    by simp
  then show ?thesis
    by (simp add: parseABCNotation_def)
qed

theorem accidentals_leave_events_unchanged_witness:
  "parseABCNotation (js ''X:1\<newline>AB^_,2 c'') = parseABCNotation (js ''X:1\<newline>AB,2 c'') \<and>
   parseABCNotation (js ''c=2'') = parseABCNotation (js ''c2'')"
  using accidentals_leave_events_unchanged
      [of "of_char CHR ''B''" "js ''^_''" "js ''X:1\<newline>A''" "js '',2 c''"]
    accidentals_leave_events_unchanged [of "of_char CHR ''c''" "js ''=''" "[]" "js ''2''"]
  by (simp add: char_defs)

text \<open>
  The claim C8 as it is stated fails: in \<open>C^:ab\<close> the \<open>C\<close> is scanned as a note and
  the marker after it is skipped; with the marker removed the line is the header
  \<open>C:ab\<close>, nothing is parsed, and the result is the default sequence.
\<close>

theorem accidentals_header_counterexample:
  "parseABCNotation (js ''C^:ab'') =
     [\<lparr>pitch = Num 64, duration = Num 1, rest = False\<rparr>,
      \<lparr>pitch = Num 81, duration = Num 1, rest = False\<rparr>,
      \<lparr>pitch = Num 83, duration = Num 1, rest = False\<rparr>] \<and>
   parseABCNotation (js ''C:ab'') =
     [\<lparr>pitch = Num 64, duration = Num 1, rest = False\<rparr>,
      \<lparr>pitch = Num 67, duration = Num 1, rest = False\<rparr>,
      \<lparr>pitch = Num 69, duration = Num 1, rest = False\<rparr>,
      \<lparr>pitch = Num 71, duration = Num 1, rest = False\<rparr>,
      \<lparr>pitch = Num 76, duration = Num 1, rest = False\<rparr>,
      \<lparr>pitch = Num 79, duration = Num 1, rest = False\<rparr>,
      \<lparr>pitch = Num 81, duration = Num 1, rest = False\<rparr>,
      \<lparr>pitch = Num 83, duration = Num 1, rest = False\<rparr>] \<and>
   parseABCNotation (js ''C^:ab'') \<noteq> parseABCNotation (js ''C:ab'')"
proof -
  have 1: "parseABCNotation (js ''C^:ab'') =
     [\<lparr>pitch = Num 64, duration = Num 1, rest = False\<rparr>,
      \<lparr>pitch = Num 81, duration = Num 1, rest = False\<rparr>,
      \<lparr>pitch = Num 83, duration = Num 1, rest = False\<rparr>]"
    apply (simp add: scanLine.simps(2) char_defs scan_defs)
    apply (simp add: pitch_defs char_defs)
    done
  have 2: "parseABCNotation (js ''C:ab'') = getDefaultNotes"
    by (simp add: char_defs parseABCNotation_def)
  show ?thesis
    unfolding 1 2 by (simp add: getDefaultNotes_def)
qed

section \<open>Rounding to doubles\<close>

lemma bitlen_positive: "0 < n \<Longrightarrow> 1 \<le> bitlen n"
  using bitlen_eq_zero_iff [of n] bitlen_nonneg [of n] by linarith

lemma binade_lower:
  assumes "0 < x"
  shows "2 powi binade x \<le> x"
proof (cases "1 \<le> x")
  case True
  let ?n = "\<lfloor>x\<rfloor>"
  have n: "0 < ?n"
    using True by linarith
  have b: "1 \<le> bitlen ?n"
    using n by (rule bitlen_positive)
  have "(2::int) ^ nat (bitlen ?n - 1) \<le> ?n"
    using bitlen_bounds [OF n] by simp
  then have "(of_int ((2::int) ^ nat (bitlen ?n - 1)) :: rat) \<le> of_int ?n"
    by (simp only: of_int_le_iff)
  then have "(2::rat) ^ nat (bitlen ?n - 1) \<le> of_int ?n"
    by simp
  then have "(2::rat) ^ nat (bitlen ?n - 1) \<le> x"
    using of_int_floor_le [of x] by (rule order_trans)
  moreover have "(2::rat) powi (bitlen ?n - 1) = 2 ^ nat (bitlen ?n - 1)"
    using b by (simp add: power_int_nonneg_exp)
  ultimately show ?thesis
    using True by (simp add: binade_def)
next
  case False
  let ?y = "1 / x"
  let ?k = "\<lceil>?y\<rceil> - 1"
  have y: "1 < ?y"
    using False assms by simp
  have k: "0 < ?k"
    using y by linarith
  have "?k < 2 ^ nat (bitlen ?k)"
    using bitlen_bounds [OF k] by simp
  then have "\<lceil>?y\<rceil> \<le> 2 ^ nat (bitlen ?k)"
    by linarith
  then have c: "(of_int \<lceil>?y\<rceil> :: rat) \<le> of_int (2 ^ nat (bitlen ?k))"
    by (simp only: of_int_le_iff)
  have "?y \<le> of_int \<lceil>?y\<rceil>"
    by (rule le_of_int_ceiling)
  also note c
  finally have "?y \<le> 2 ^ nat (bitlen ?k)"
    by simp
  then have "1 / 2 ^ nat (bitlen ?k) \<le> x"
    using assms by (simp add: field_simps)
  moreover have "(2::rat) powi (- bitlen ?k) = 1 / 2 ^ nat (bitlen ?k)"
    using bitlen_nonneg [of ?k] by (simp add: power_int_minus power_int_nonneg_exp field_simps)
  ultimately show ?thesis
    using False by (simp add: binade_def)
qed

lemma binade_upper:
  assumes "0 < x"
  shows "x < 2 powi (binade x + 1)"
proof (cases "1 \<le> x")
  case True
  let ?n = "\<lfloor>x\<rfloor>"
  have n: "0 < ?n"
    using True by linarith
  have "?n < 2 ^ nat (bitlen ?n)"
    using bitlen_bounds [OF n] by simp
  then have "?n + 1 \<le> 2 ^ nat (bitlen ?n)"
    by linarith
  then have c: "(of_int (?n + 1) :: rat) \<le> of_int (2 ^ nat (bitlen ?n))"
    by (simp only: of_int_le_iff)
  have "x < of_int (?n + 1)"
    by linarith
  also note c
  finally have "x < 2 ^ nat (bitlen ?n)"
    by simp
  moreover have "(2::rat) powi (bitlen ?n) = 2 ^ nat (bitlen ?n)"
    using bitlen_nonneg [of ?n] by (simp add: power_int_nonneg_exp)
  ultimately show ?thesis
    using True by (simp add: binade_def)
next
  case False
  let ?y = "1 / x"
  let ?k = "\<lceil>?y\<rceil> - 1"
  have y: "1 < ?y"
    using False assms by simp
  have k: "0 < ?k"
    using y by linarith
  have b: "1 \<le> bitlen ?k"
    using k by (rule bitlen_positive)
  have "(2::int) ^ nat (bitlen ?k - 1) \<le> ?k"
    using bitlen_bounds [OF k] by simp
  then have "(of_int ((2::int) ^ nat (bitlen ?k - 1)) :: rat) \<le> of_int ?k"
    by (simp only: of_int_le_iff)
  also have "of_int ?k < ?y"
    by linarith
  finally have "2 ^ nat (bitlen ?k - 1) < ?y"
    by simp
  then have "x < 1 / 2 ^ nat (bitlen ?k - 1)"
    using assms by (simp add: field_simps)
  moreover have "(2::rat) powi (- bitlen ?k + 1) = 1 / 2 ^ nat (bitlen ?k - 1)"
  proof -
    have "(2::rat) powi (- bitlen ?k + 1) = 2 powi (- (bitlen ?k - 1))"
      by simp
    also have "\<dots> = 1 / 2 powi (bitlen ?k - 1)"
      by (simp only: power_int_minus_divide)
    also have "\<dots> = 1 / 2 ^ nat (bitlen ?k - 1)"
      using b by (simp add: power_int_nonneg_exp)
    finally show ?thesis .
  qed
  ultimately show ?thesis
    using False by (simp add: binade_def)
qed

lemma binade_mono:
  assumes "0 < x" and "x \<le> y"
  shows "binade x \<le> binade y"
proof (rule ccontr)
  assume "\<not> binade x \<le> binade y"
  then have "binade y + 1 \<le> binade x"
    by simp
  then have "(2::rat) powi (binade y + 1) \<le> 2 powi binade x"
    by (intro power_int_increasing) simp_all
  also have "\<dots> \<le> x"
    using assms(1) by (rule binade_lower)
  also have "\<dots> \<le> y"
    by (rule assms(2))
  also have "\<dots> < 2 powi (binade y + 1)"
    using assms by (intro binade_upper) simp
  finally show False
    by simp
qed


lemma roundEven_of_int [simp]: "roundEven (of_int n) = n"
  by (simp add: roundEven_def)

lemma roundEven_mono:
  assumes "x \<le> y"
  shows "roundEven x \<le> roundEven y"
proof (cases "\<lfloor>x\<rfloor> = \<lfloor>y\<rfloor>")
  case True
  then show ?thesis
    using assms by (auto simp: roundEven_def Let_def)
next
  case False
  then have "\<lfloor>x\<rfloor> + 1 \<le> \<lfloor>y\<rfloor>"
    using assms floor_mono [of x y] by linarith
  moreover have "roundEven x \<le> \<lfloor>x\<rfloor> + 1" and "\<lfloor>y\<rfloor> \<le> roundEven y"
    by (auto simp: roundEven_def Let_def)
  ultimately show ?thesis
    by linarith
qed

lemma fl64_positive_form:
  assumes "0 < x"
  shows "fl64 x = of_int (roundEven (x / 2 powi (binade x - 52))) * 2 powi (binade x - 52)"
  using assms by (simp add: fl64_def Let_def)

lemma fl64_bounds:
  assumes "0 < x"
  shows "2 powi binade x \<le> fl64 x" and "fl64 x \<le> 2 powi (binade x + 1)"
proof -
  let ?u = "(2::rat) powi (binade x - 52)"
  have u: "0 < ?u"
    by simp
  have lo: "(2::rat) powi binade x = of_int (2 ^ 52) * ?u"
    by (simp add: power_int_diff)
  have hi: "(2::rat) powi (binade x + 1) = of_int (2 ^ 53) * ?u"
    by (simp add: power_int_diff power_int_add)
  have "of_int (2 ^ 52) \<le> x / ?u"
    using binade_lower [OF assms] u unfolding lo by (simp add: field_simps)
  then have "roundEven (of_int (2 ^ 52)) \<le> roundEven (x / ?u)"
    by (rule roundEven_mono)
  then have "(of_int (2 ^ 52) :: rat) \<le> of_int (roundEven (x / ?u))"
    unfolding roundEven_of_int by (simp only: of_int_le_iff)
  then show "2 powi binade x \<le> fl64 x"
    unfolding lo fl64_positive_form [OF assms] using u by (simp only: mult_le_cancel_right_pos)
  have "x / ?u \<le> of_int (2 ^ 53)"
    using binade_upper [OF assms] u unfolding hi by (simp add: field_simps)
  then have "roundEven (x / ?u) \<le> roundEven (of_int (2 ^ 53))"
    by (rule roundEven_mono)
  then have "(of_int (roundEven (x / ?u)) :: rat) \<le> of_int (2 ^ 53)"
    unfolding roundEven_of_int by (simp only: of_int_le_iff)
  then show "fl64 x \<le> 2 powi (binade x + 1)"
    unfolding hi fl64_positive_form [OF assms] using u by (simp only: mult_le_cancel_right_pos)
qed


lemma fl64_mono:
  assumes "0 < x" and "x \<le> y"
  shows "fl64 x \<le> fl64 y"
proof (cases "binade x = binade y")
  case True
  let ?u = "(2::rat) powi (binade x - 52)"
  have "x / ?u \<le> y / ?u"
    using assms(2) by (simp add: divide_right_mono)
  then have "(of_int (roundEven (x / ?u)) :: rat) \<le> of_int (roundEven (y / ?u))"
    using roundEven_mono by (simp only: of_int_le_iff)
  then have "of_int (roundEven (x / ?u)) * ?u \<le> of_int (roundEven (y / ?u)) * ?u"
    by (simp add: mult_right_mono)
  then show ?thesis
    using assms True by (simp add: fl64_positive_form)
next
  case False
  then have "binade x + 1 \<le> binade y"
    using binade_mono [OF assms] by simp
  then have "(2::rat) powi (binade x + 1) \<le> 2 powi binade y"
    by (intro power_int_increasing) simp_all
  then show ?thesis
    using fl64_bounds(2) [OF assms(1)] fl64_bounds(1) [of y] assms by simp
qed



lemma fl64_exact:
  assumes "0 < m" and "m < 2 ^ 53"
  shows "fl64 (of_int m * 2 powi e) = of_int m * 2 powi e"
proof -
  let ?x = "of_int m * 2 powi e :: rat"
  let ?b = "binade ?x"
  have x: "0 < ?x"
    using assms(1) by simp
  have "(of_int m :: rat) < of_int (2 ^ 53)"
    using assms(2) by (simp only: of_int_less_iff)
  then have "?x < of_int (2 ^ 53) * 2 powi e"
    by (simp add: mult_strict_right_mono)
  also have "\<dots> = 2 powi (e + 53)"
    by (simp add: power_int_add)
  finally have up: "?x < 2 powi (e + 53)" .
  have "?b < e + 53"
  proof (rule ccontr)
    assume "\<not> ?b < e + 53"
    then have "(2::rat) powi (e + 53) \<le> 2 powi ?b"
      by (intro power_int_increasing) simp_all
    then show False
      using up binade_lower [OF x] by linarith
  qed
  then have k: "0 \<le> e - ?b + 52"
    by simp
  have "?x / 2 powi (?b - 52) = of_int m * (2 powi e / 2 powi (?b - 52))"
    by simp
  also have "2 powi e / 2 powi (?b - 52) = (2::rat) powi (e - ?b + 52)"
    by (simp add: power_int_diff power_int_add)
  also have "\<dots> = 2 ^ nat (e - ?b + 52)"
    using k by (simp add: power_int_nonneg_exp)
  finally have q: "?x / 2 powi (?b - 52) = of_int (m * 2 ^ nat (e - ?b + 52))"
    by simp
  have "fl64 ?x = of_int (m * 2 ^ nat (e - ?b + 52)) * 2 powi (?b - 52)"
    unfolding fl64_positive_form [OF x] q roundEven_of_int ..
  also have "\<dots> = of_int m * ((2::rat) powi (e - ?b + 52) * 2 powi (?b - 52))"
    using k by (simp add: power_int_nonneg_exp)
  also have "(2::rat) powi (e - ?b + 52) * 2 powi (?b - 52) = 2 powi e"
    by (simp flip: power_int_add)
  finally show ?thesis .
qed

lemma fl64_1: "fl64 1 = 1"
  using fl64_exact [of 1 0] by simp

lemma fl64_100: "fl64 100 = 100"
  using fl64_exact [of 100 0] by simp

lemma jsRound_of_int [simp]: "jsRound (of_int n) = n"
  unfolding jsRound_def by linarith

lemma progress_last: "0 < totalNotes \<Longrightarrow> progress (totalNotes - 1) totalNotes = 100"
  using jsRound_of_int [of 100] by (simp add: progress_def fl64_1 fl64_100)

lemma jsRound_at: "of_int n \<le> x + 1 / 2 \<Longrightarrow> x + 1 / 2 < of_int n + 1 \<Longrightarrow> jsRound x = n"
  unfolding jsRound_def by linarith


subsection \<open>Up to a hundred notes the percentages are all different\<close>






section \<open>A playback run that nothing interrupts\<close>

lemma parse_nonempty: "parseABCNotation abc \<noteq> []"
  by (simp add: parseABCNotation_def Let_def getDefaultNotes_def)

lemma playOne_calls:
  assumes "currentNoteIndex st < length (currentNotes st)"
  shows "playOne n st =
    st\<lparr>calls := calls st @ noteCalls (currentNotes st) n (currentNoteIndex st),
       sleeping := sleeping st @ [n]\<rparr>"
  using assms by (simp add: playOne_def noteCalls_def emit_def Let_def)

lemma playAudio_starts:
  assumes "abc \<noteq> []" and "abc \<noteq> placeholder"
  shows "playAudio (Some abc) st =
    st\<lparr>isPlaying := True, playBtnDisabled := True, pauseBtnDisabled := False,
       stopBtnDisabled := False, currentNotes := parseABCNotation abc, currentNoteIndex := 0,
       calls := calls st @ UpdatePlaybackStatus Playing
         # noteCalls (parseABCNotation abc) (length (parseABCNotation abc)) 0,
       sleeping := sleeping st @ [length (parseABCNotation abc)]\<rparr>"
  using assms parse_nonempty [of abc]
  by (simp add: playAudio_def Let_def setButtons_def emit_def playNotes_def loopTest_def
      playOne_calls)














lemma parse_AB_c:
  "parseABCNotation (js ''AB c'') =
     [\<lparr>pitch = Num 69, duration = Num 1, rest = False\<rparr>,
      \<lparr>pitch = Num 71, duration = Num 1, rest = False\<rparr>,
      \<lparr>pitch = Num 72, duration = Num 1, rest = False\<rparr>]"
  apply (simp add: scanLine.simps(2) char_defs scan_defs)
  apply (simp add: pitch_defs char_defs)
  done

lemma AB_c_is_music: "js ''AB c'' \<noteq> []" "js ''AB c'' \<noteq> placeholder"
  by (simp_all add: js_def placeholder_def)


subsection \<open>More than a hundred notes\<close>






section \<open>Play with nothing to play\<close>

text \<open>
  C7. When the notation is absent, empty or the placeholder, \<open>playAudio\<close> reports
  "No music to play" and does nothing else: \<open>isPlaying\<close>, \<open>currentNoteIndex\<close>,
  \<open>currentNotes\<close>, the buttons and the pending activations of the loop are as before,
  so that no loop is started.
\<close>

theorem play_without_music_changes_nothing:
  assumes "notation = None \<or> notation = Some [] \<or> notation = Some placeholder"
  shows "playAudio notation st = st\<lparr>calls := calls st @ [ShowError NoMusicToPlay]\<rparr> \<and>
         isPlaying (playAudio notation st) = isPlaying st \<and>
         currentNoteIndex (playAudio notation st) = currentNoteIndex st \<and>
         currentNotes (playAudio notation st) = currentNotes st \<and>
         sleeping (playAudio notation st) = sleeping st"
  using assms by (auto simp: playAudio_def emit_def)

theorem play_without_music_changes_nothing_witness:
  "playAudio (Some placeholder) idle = idle\<lparr>calls := [ShowError NoMusicToPlay]\<rparr> \<and>
   playAudio None idle = idle\<lparr>calls := [ShowError NoMusicToPlay]\<rparr>"
  using play_without_music_changes_nothing [of "Some placeholder" idle]
    play_without_music_changes_nothing [of None idle]
  by (simp add: idle_def)

section \<open>Play while playing\<close>

lemma progress_between:
  assumes lo: "0 < lo" "lo \<le> of_nat (i + 1) / of_nat n" "fl64 lo = lo" "fl64 (lo * 100) = lo * 100"
    and hi: "of_nat (i + 1) / of_nat n \<le> hi" "fl64 hi = hi" "fl64 (hi * 100) = hi * 100"
    and p: "of_int p \<le> lo * 100 + 1 / 2" "hi * 100 + 1 / 2 < of_int p + 1"
  shows "progress i n = p"
proof -
  let ?q = "of_nat (i + 1) / of_nat n :: rat"
  have q: "0 < ?q"
    using lo(1,2) by linarith
  have "lo \<le> fl64 ?q"
    using fl64_mono [OF lo(1,2)] lo(3) by simp
  then have a: "lo * 100 \<le> fl64 ?q * 100"
    by simp
  have "fl64 ?q \<le> hi"
    using fl64_mono [OF q hi(1)] hi(2) by simp
  then have b: "fl64 ?q * 100 \<le> hi * 100"
    by simp
  have "0 < lo * 100" and "0 < fl64 ?q * 100"
    using lo(1) a by simp_all
  then have "lo * 100 \<le> fl64 (fl64 ?q * 100)" and "fl64 (fl64 ?q * 100) \<le> hi * 100"
    using fl64_mono [OF _ a] fl64_mono [OF _ b] lo(4) hi(3) by simp_all
  then show ?thesis
    unfolding progress_def using p by (intro jsRound_at) linarith+
qed

lemma progress_thirds: "progress 0 3 = 33" "progress 1 3 = 67" "progress 2 3 = 100"
proof -
  have e: "fl64 (341 / 1024) = 341 / 1024" "fl64 (171 / 512) = 171 / 512"
    "fl64 (8525 / 256) = 8525 / 256" "fl64 (4275 / 128) = 4275 / 128"
    "fl64 (341 / 512) = 341 / 512" "fl64 (683 / 1024) = 683 / 1024"
    "fl64 (8525 / 128) = 8525 / 128" "fl64 (17075 / 256) = 17075 / 256"
    using fl64_exact [of 341 "- 10"] fl64_exact [of 171 "- 9"] fl64_exact [of 8525 "- 8"]
      fl64_exact [of 4275 "- 7"] fl64_exact [of 341 "- 9"] fl64_exact [of 683 "- 10"]
      fl64_exact [of 8525 "- 7"] fl64_exact [of 17075 "- 8"]
    by (simp_all add: power_int_minus)
  show "progress 0 3 = 33"
    by (rule progress_between [of "341 / 1024" _ _ "171 / 512"]) (simp_all add: e)
  show "progress 1 3 = 67"
    by (rule progress_between [of "341 / 512" _ _ "683 / 1024"]) (simp_all add: e)
  show "progress 2 3 = 100"
    using progress_last [of 3] by simp
qed

text \<open>
  C9 asks that \<open>playAudio\<close>, called while the state is playing, start no second loop.
  The code has no such guard. Two calls on the notation \<open>AB c\<close>, the second before the
  first timer fires, leave two activations of \<open>playNotes\<close> pending, and the first
  note has been triggered twice. Both loops then advance the one shared index: the
  four timer events trigger \<open>B\<close> and \<open>c\<close> once each and leave the index at 4.
\<close>

theorem second_play_starts_second_loop:
  "let st = run [Play (Some (js ''AB c'')), Play (Some (js ''AB c''))] idle;
       st' = run (replicate 4 (Wake 0)) st
   in isPlaying (run [Play (Some (js ''AB c''))] idle) \<and>
      sleeping st = [3, 3] \<and>
      calls st =
        [UpdatePlaybackStatus Playing, TriggerAttackRelease (Num 69) (Num 1),
         UpdatePlaybackStatus (Progress 33),
         UpdatePlaybackStatus Playing, TriggerAttackRelease (Num 69) (Num 1),
         UpdatePlaybackStatus (Progress 33)] \<and>
      calls st' = calls st @
        [TriggerAttackRelease (Num 71) (Num 1), UpdatePlaybackStatus (Progress 67),
         TriggerAttackRelease (Num 72) (Num 1), UpdatePlaybackStatus (Progress 100),
         UpdatePlaybackStatus Finished] \<and>
      currentNoteIndex st' = 4 \<and> sleeping st' = []"
proof -
  have wakes: "replicate 4 (Wake 0) = [Wake 0, Wake 0, Wake 0, Wake 0]"
    by (simp add: numeral_eq_Suc)
  have p: "progress 0 (Suc (Suc (Suc 0))) = 33" "progress (Suc 0) (Suc (Suc (Suc 0))) = 67"
    "progress (Suc (Suc 0)) (Suc (Suc (Suc 0))) = 100"
    using progress_thirds by (simp_all add: numeral_2_eq_2 numeral_3_eq_3)
  show ?thesis
    unfolding wakes
    by (simp add: run_def playAudio_starts AB_c_is_music parse_AB_c idle_def noteCalls_def
        wake_def loopTest_def playOne_calls progress_thirds p setButtons_def emit_def Let_def)
qed

end
